theory Spec2Isabelle
  imports Main "HOL-Library.Char_ord" "HOL-Library.List_Lexorder"
begin

section \<open>Text primitives\<close>

text \<open>
  Python text is modelled as \<^typ>\<open>string\<close>, read as ASCII: case folding, white space and
  word characters are those of the ASCII range, and the development is about ASCII
  documents, prompts and file names. The line separator is \<^term>\<open>CHR 0x0A\<close>.
\<close>

definition nl :: char where
  "nl = CHR 0x0A"

text \<open>\<^verbatim>\<open>s.startswith(p)\<close>\<close>

fun startswith :: "string \<Rightarrow> string \<Rightarrow> bool" where
  "startswith s [] = True"
| "startswith [] (p # ps) = False"
| "startswith (c # cs) (p # ps) = (c = p \<and> startswith cs ps)"

text \<open>\<^verbatim>\<open>s.endswith(p)\<close>\<close>

definition endswith :: "string \<Rightarrow> string \<Rightarrow> bool" where
  "endswith s p = startswith (rev s) (rev p)"

text \<open>\<^verbatim>\<open>sub in s\<close>: the substring occurs at some position of \<open>s\<close>.\<close>

fun contains :: "string \<Rightarrow> string \<Rightarrow> bool" where
  "contains [] sub = startswith [] sub"
| "contains (c # cs) sub = (startswith (c # cs) sub \<or> contains cs sub)"

text \<open>\<^verbatim>\<open>s.lower()\<close> on ASCII text.\<close>

definition is_upper :: "char \<Rightarrow> bool" where
  "is_upper c = (CHR ''A'' \<le> c \<and> c \<le> CHR ''Z'')"

definition lower_char :: "char \<Rightarrow> char" where
  "lower_char c = (if is_upper c then char_of (of_char c + (32::nat)) else c)"

definition lower :: "string \<Rightarrow> string" where
  "lower s = map lower_char s"

text \<open>
  \<^verbatim>\<open>s.strip()\<close>, \<^verbatim>\<open>s.strip(chars)\<close> and \<^verbatim>\<open>s.lstrip(chars)\<close>. Without an argument Python
  strips the characters for which \<^verbatim>\<open>str.isspace\<close> holds; in ASCII these are the codes
  9 to 13, 28 to 31 and 32.
\<close>

definition is_space :: "char \<Rightarrow> bool" where
  "is_space c = (let n = (of_char c :: nat) in (9 \<le> n \<and> n \<le> 13) \<or> (28 \<le> n \<and> n \<le> 32))"

definition lstrip_by :: "(char \<Rightarrow> bool) \<Rightarrow> string \<Rightarrow> string" where
  "lstrip_by P s = dropWhile P s"

definition strip_by :: "(char \<Rightarrow> bool) \<Rightarrow> string \<Rightarrow> string" where
  "strip_by P s = rev (dropWhile P (rev (dropWhile P s)))"

definition strip :: "string \<Rightarrow> string" where
  "strip s = strip_by is_space s"

definition strip_chars :: "string \<Rightarrow> string \<Rightarrow> string" where
  "strip_chars s chars = strip_by (\<lambda>c. c \<in> set chars) s"

definition lstrip_chars :: "string \<Rightarrow> string \<Rightarrow> string" where
  "lstrip_chars s chars = lstrip_by (\<lambda>c. c \<in> set chars) s"

text \<open>\<^verbatim>\<open>s.split(sep)\<close> for a one-character separator: never the empty list.\<close>

fun split_on :: "char \<Rightarrow> string \<Rightarrow> string list" where
  "split_on sep [] = [[]]"
| "split_on sep (c # cs) =
     (if c = sep then [] # split_on sep cs
      else (case split_on sep cs of
              [] \<Rightarrow> [[c]]
            | l # ls \<Rightarrow> (c # l) # ls))"

text \<open>
  \<^verbatim>\<open>s.split(sep, 1)[1]\<close>: the text after the first separator; \<open>None\<close> stands for the
  \<^verbatim>\<open>IndexError\<close> Python raises when \<open>s\<close> has no separator.
\<close>

fun split1_snd :: "char \<Rightarrow> string \<Rightarrow> string option" where
  "split1_snd sep [] = None"
| "split1_snd sep (c # cs) = (if c = sep then Some cs else split1_snd sep cs)"

text \<open>\<^verbatim>\<open>sep.join(parts)\<close>\<close>

fun join :: "string \<Rightarrow> string list \<Rightarrow> string" where
  "join sep [] = []"
| "join sep [p] = p"
| "join sep (p # q # ps) = p @ sep @ join sep (q # ps)"

text \<open>Truthiness of a \<^verbatim>\<open>str | None\<close> value: neither \<^verbatim>\<open>None\<close> nor empty.\<close>

fun truthy :: "string option \<Rightarrow> bool" where
  "truthy None = False"
| "truthy (Some s) = (s \<noteq> [])"

section \<open>Keyword router (doc-suggester.py)\<close>

text \<open>A rule of the table; the field \<^verbatim>\<open>keywords\<close> is named \<open>keywords_of\<close>.\<close>

record mapping =
  keywords_of :: "string list"
  doc :: string
  description :: string

definition DOC_MAPPINGS :: "mapping list" where
  "DOC_MAPPINGS = [
     \<lparr>keywords_of = [''coordinate'', ''position'', ''frame'', ''bounds'', ''cgpoint'', ''cgrect'',
                  ''origin'', ''anchor''],
      doc = ''21_coordinate-systems.md'',
      description = ''coordinate systems and positioning''\<rparr>,
     \<lparr>keywords_of = [''not updating'', ''not refreshing'', ''state not changing'',
                  ''observableobject'', ''@state'', ''@binding'', ''published'', ''view update'',
                  ''refresh view'', ''redraw''],
      doc = ''20_swiftui-gotchas.md'',
      description = ''SwiftUI state and view updates''\<rparr>,
     \<lparr>keywords_of = [''sandbox'', ''bookmark'', ''entitlement'', ''security-scoped'', ''app sandbox'',
                  ''file access'', ''permission''],
      doc = ''22_macos-platform.md'',
      description = ''macOS sandboxing and entitlements''\<rparr>,
     \<lparr>keywords_of = [''debug'', ''bug'', ''broken'', ''not working'', ''crash'', ''error'', ''issue'',
                  ''problem''],
      doc = ''31_debugging.md'',
      description = ''debugging strategies''\<rparr>,
     \<lparr>keywords_of = [''ship'', ''release'', ''production'', ''deploy'', ''publish'', ''app store'',
                  ''testflight''],
      doc = ''30_production-checklist.md'',
      description = ''production readiness''\<rparr>,
     \<lparr>keywords_of = [''typography'', ''font'', ''text style'', ''sf pro'', ''dynamic type''],
      doc = ''40_typography.md'',
      description = ''typography guidelines''\<rparr>,
     \<lparr>keywords_of = [''git'', ''commit'', ''branch'', ''merge'', ''pull request'', ''pr''],
      doc = ''32_git-workflow.md'',
      description = ''git workflow''\<rparr>,
     \<lparr>keywords_of = [''architecture'', ''design decision'', ''pattern'', ''structure'', ''approach''],
      doc = ''04_architecture-decisions.md'',
      description = ''architecture decision records''\<rparr>,
     \<lparr>keywords_of = [''new project'', ''start'', ''scaffold'', ''setup'', ''initialize''],
      doc = ''10_new-project.md'',
      description = ''new project setup''\<rparr>,
     \<lparr>keywords_of = [''plan'', ''planning'', ''roadmap'', ''scope'', ''estimate''],
      doc = ''51_planning-patterns.md'',
      description = ''planning patterns''\<rparr>,
     \<lparr>keywords_of = [''web'', ''html'', ''css'', ''javascript'', ''browser'', ''responsive''],
      doc = ''24_web-gotchas.md'',
      description = ''web development gotchas''\<rparr>,
     \<lparr>keywords_of = [''button'', ''menu'', ''toolbar'', ''sidebar'', ''navigation'', ''tab'', ''modal'',
                  ''sheet''],
      doc = ''41_apple-ui.md'',
      description = ''Apple UI patterns''\<rparr>
   ]"

text \<open>
  The regular expression \<^verbatim>\<open>\b\<close> holds between two neighbouring positions exactly when one
  of them is a word character (a letter, a digit or the underscore) and the other is
  not; the positions before the first and after the last character count as
  non-word.
\<close>

definition is_word_char :: "char \<Rightarrow> bool" where
  "is_word_char c =
     ((CHR ''a'' \<le> c \<and> c \<le> CHR ''z'') \<or> (CHR ''A'' \<le> c \<and> c \<le> CHR ''Z'')
      \<or> (CHR ''0'' \<le> c \<and> c \<le> CHR ''9'') \<or> c = CHR ''_'')"

fun is_word :: "char option \<Rightarrow> bool" where
  "is_word None = False"
| "is_word (Some c) = is_word_char c"

definition word_boundary :: "char option \<Rightarrow> char option \<Rightarrow> bool" where
  "word_boundary before after = (is_word before \<noteq> is_word after)"

fun first_char :: "string \<Rightarrow> char option" where
  "first_char [] = None"
| "first_char (c # cs) = Some c"

fun last_char :: "char option \<Rightarrow> string \<Rightarrow> char option" where
  "last_char prev [] = prev"
| "last_char prev (c # cs) = last_char (Some c) cs"

text \<open>
  The pattern \<^verbatim>\<open>r'\b' + re.escape(keyword) + r'\b'\<close> matched at the current position:
  \<open>prev\<close> is the character before the position, \<open>s\<close> the text from it on. The escaped
  keyword matches exactly the keyword's own characters.
\<close>

definition bounded_match_here :: "char option \<Rightarrow> string \<Rightarrow> string \<Rightarrow> bool" where
  "bounded_match_here prev s keyword =
     (word_boundary prev (first_char s) \<and> startswith s keyword
      \<and> word_boundary (last_char prev keyword) (first_char (drop (length keyword) s)))"

text \<open>\<^verbatim>\<open>re.search\<close> tries every position from left to right, the end of the text included.\<close>

fun re_search_from :: "char option \<Rightarrow> string \<Rightarrow> string \<Rightarrow> bool" where
  "re_search_from prev [] keyword = bounded_match_here prev [] keyword"
| "re_search_from prev (c # cs) keyword =
     (bounded_match_here prev (c # cs) keyword \<or> re_search_from (Some c) cs keyword)"

definition re_search_bounded :: "string \<Rightarrow> string \<Rightarrow> bool" where
  "re_search_bounded keyword s = re_search_from None s keyword"

text \<open>The test the inner loop of \<^verbatim>\<open>find_matching_doc\<close> makes for one keyword.\<close>

definition keyword_matches :: "string \<Rightarrow> string \<Rightarrow> bool" where
  "keyword_matches keyword prompt_lower =
     (if length keyword \<le> 4 then re_search_bounded keyword prompt_lower
      else contains prompt_lower keyword)"

text \<open>The inner loop: does some keyword of the rule match?\<close>

fun any_keyword_matches :: "string list \<Rightarrow> string \<Rightarrow> bool" where
  "any_keyword_matches [] prompt_lower = False"
| "any_keyword_matches (keyword # rest) prompt_lower =
     (if keyword_matches keyword prompt_lower then True
      else any_keyword_matches rest prompt_lower)"

text \<open>The outer loop: the first rule with a matching keyword is returned.\<close>

fun first_matching :: "mapping list \<Rightarrow> string \<Rightarrow> mapping option" where
  "first_matching [] prompt_lower = None"
| "first_matching (m # ms) prompt_lower =
     (if any_keyword_matches (keywords_of m) prompt_lower then Some m
      else first_matching ms prompt_lower)"

definition find_matching_doc :: "string \<Rightarrow> mapping option" where
  "find_matching_doc prompt = first_matching DOC_MAPPINGS (lower prompt)"

text \<open>
  A rule has a keyword of the prompt when its inner loop succeeds on some keyword;
  stated with a list quantifier for the theorems below.
\<close>

definition rule_matches :: "mapping \<Rightarrow> string \<Rightarrow> bool" where
  "rule_matches m prompt_lower =
     list_ex (\<lambda>keyword. keyword_matches keyword prompt_lower) (keywords_of m)"

section \<open>Session start hook (session-start.py)\<close>

subsection \<open>Files and exceptions\<close>

text \<open>
  The exceptions the hook can meet. \<^verbatim>\<open>Path.read_text\<close> either returns the decoded text or
  raises; the file system is an input of the model, given as the outcome of every read
  the hook makes.
\<close>

datatype py_error =
  FileNotFoundError | PermissionError | IsADirectoryError | UnicodeDecodeError | IndexError

datatype read_result = Text string | Raises py_error

text \<open>
  Every call the hook makes on its environment is given by its outcome, a value or the
  exception raised. \<open>env_project_dir\<close>: the variable \<^verbatim>\<open>CLAUDE_PROJECT_DIR\<close>, if set.
  \<open>getcwd\<close>: the outcome of \<^verbatim>\<open>os.getcwd()\<close>. The other fields are about the tree under
  the project root. \<open>marker_exists\<close>: the outcome of \<^verbatim>\<open>exists()\<close> on \<^verbatim>\<open>docs/00_base.md\<close>;
  \<^verbatim>\<open>Path.exists\<close> answers \<^verbatim>\<open>False\<close> for a missing path and raises the other errors of
  \<^verbatim>\<open>stat\<close>, such as \<^verbatim>\<open>PermissionError\<close> when \<^verbatim>\<open>docs\<close> cannot be searched. \<open>project_state\<close>:
  the outcome of reading \<^verbatim>\<open>docs/PROJECT_STATE.md\<close>. \<open>sessions_dir\<close>: the outcome of
  \<^verbatim>\<open>exists()\<close> and \<^verbatim>\<open>glob\<close> on \<^verbatim>\<open>docs/sessions\<close>, that is \<open>None\<close> when the directory does not
  exist, else the names of its entries, or the exception either call raises.
  \<open>session_file\<close>: the outcome of reading an entry of that directory.
\<close>

record filesystem =
  env_project_dir :: "string option"
  getcwd :: "py_error + string"
  marker_exists :: "py_error + bool"
  project_state :: read_result
  sessions_dir :: "py_error + string list option"
  session_file :: "string \<Rightarrow> read_result"

text \<open>
  \<^verbatim>\<open>os.environ.get("CLAUDE_PROJECT_DIR", os.getcwd())\<close>: the default is computed before
  the lookup, so an exception of \<^verbatim>\<open>os.getcwd()\<close> leaves the function whether or not the
  variable is set.
\<close>

definition find_project_root :: "filesystem \<Rightarrow> py_error + string" where
  "find_project_root fs =
     (case getcwd fs of
        Inl e \<Rightarrow> Inl e
      | Inr cwd \<Rightarrow> Inr (case env_project_dir fs of None \<Rightarrow> cwd | Some dir \<Rightarrow> dir))"

text \<open>
  \<^verbatim>\<open>read_file_safely\<close>, applied to the outcome of \<^verbatim>\<open>path.read_text(encoding="utf-8")\<close>: the
  \<^verbatim>\<open>except\<close> clause names two exception classes, every other exception propagates.
\<close>

fun read_file_safely :: "read_result \<Rightarrow> py_error + string option" where
  "read_file_safely (Text s) = Inr (Some s)"
| "read_file_safely (Raises e) =
     (if e = FileNotFoundError \<or> e = PermissionError then Inr None else Inl e)"

subsection \<open>Phase and focus\<close>

text \<open>\<^verbatim>\<open>line.split(":", 1)[1].strip().strip("*")\<close>\<close>

definition label_value :: "string \<Rightarrow> py_error + string option" where
  "label_value line =
     (case split1_snd (CHR '':'') line of
        None \<Rightarrow> Inl IndexError
      | Some v \<Rightarrow> Inr (Some (strip_chars (strip v) ''*'')))"

text \<open>\<^verbatim>\<open>line.split(":", 1)[1].strip() if ":" in line else None\<close>\<close>

definition phrase_value :: "string \<Rightarrow> py_error + string option" where
  "phrase_value line =
     (if contains line '':'' then
        (case split1_snd (CHR '':'') line of
           None \<Rightarrow> Inl IndexError
         | Some v \<Rightarrow> Inr (Some (strip v)))
      else Inr None)"

text \<open>
  The loop shared by \<^verbatim>\<open>extract_current_phase\<close> and \<^verbatim>\<open>extract_current_focus\<close>, which differ
  in their three string constants only: on every line the two label tests come first,
  the phrase test second, and the first line that passes either test returns.
\<close>

fun extract_field :: "string \<Rightarrow> string \<Rightarrow> string \<Rightarrow> string list \<Rightarrow> py_error + string option" where
  "extract_field bold plain phrase [] = Inr None"
| "extract_field bold plain phrase (line # rest) =
     (if startswith line bold \<or> startswith line plain then label_value line
      else if contains (lower line) phrase then phrase_value line
      else extract_field bold plain phrase rest)"

definition extract_current_phase :: "string \<Rightarrow> py_error + string option" where
  "extract_current_phase content =
     extract_field ''**Phase:**'' ''Phase:'' ''current phase'' (split_on nl content)"

definition extract_current_focus :: "string \<Rightarrow> py_error + string option" where
  "extract_current_focus content =
     extract_field ''**Focus:**'' ''Focus:'' ''current focus'' (split_on nl content)"

subsection \<open>Blockers\<close>

definition is_trigger :: "string \<Rightarrow> bool" where
  "is_trigger line = (contains (lower line) ''blocker'' \<and> contains line ''#'')"

definition is_bullet :: "string \<Rightarrow> bool" where
  "is_bullet line = (startswith (strip line) ''-'' \<or> startswith (strip line) ''*'')"

text \<open>\<^verbatim>\<open>line.strip().lstrip("-*").strip()\<close>\<close>

definition bullet_value :: "string \<Rightarrow> string" where
  "bullet_value line = strip (lstrip_chars (strip line) ''-*'')"

text \<open>
  The loop of \<^verbatim>\<open>extract_blockers\<close>: the state is the flag \<^verbatim>\<open>in_blockers\<close> and the list
  collected so far; \<^verbatim>\<open>break\<close> returns the list.
\<close>

fun blockers_loop :: "bool \<Rightarrow> string list \<Rightarrow> string list \<Rightarrow> string list" where
  "blockers_loop in_blockers blockers [] = blockers"
| "blockers_loop in_blockers blockers (line # rest) =
     (if is_trigger line then blockers_loop True blockers rest
      else if in_blockers then
        (if startswith line ''#'' then blockers
         else if is_bullet line then
           (let blocker = bullet_value line in
            if blocker \<noteq> [] \<and> lower blocker \<noteq> ''none''
            then blockers_loop in_blockers (blockers @ [blocker]) rest
            else blockers_loop in_blockers blockers rest)
         else blockers_loop in_blockers blockers rest)
      else blockers_loop in_blockers blockers rest)"

definition extract_blockers :: "string \<Rightarrow> string list" where
  "extract_blockers content = blockers_loop False [] (split_on nl content)"

subsection \<open>Latest session\<close>

text \<open>
  \<^verbatim>\<open>sessions_dir.glob("*.md")\<close> keeps the entries whose name ends in \<^verbatim>\<open>.md\<close>. The paths
  share their directory, so \<^verbatim>\<open>sorted\<close> orders them by name, character by character.
\<close>

definition glob_md :: "string list \<Rightarrow> string list" where
  "glob_md names = filter (\<lambda>name. endswith name ''.md'') names"

definition session_files :: "string list \<Rightarrow> string list" where
  "session_files names = rev (sort (filter (\<lambda>name. name \<noteq> ''_index.md'') (glob_md names)))"

text \<open>The loop over the lines of the latest log; \<^verbatim>\<open>break\<close> returns the summary.\<close>

fun summary_loop :: "string list \<Rightarrow> string option" where
  "summary_loop [] = None"
| "summary_loop (raw # rest) =
     (let line = strip raw in
      if line \<noteq> [] \<and> \<not> startswith line ''#'' \<and> length line > 10
      then Some (if length line > 100 then take 100 line @ ''...'' else line)
      else summary_loop rest)"

definition get_latest_session ::
    "filesystem \<Rightarrow> py_error + (string option \<times> string option)" where
  "get_latest_session fs =
     (case sessions_dir fs of
        Inl e \<Rightarrow> Inl e
      | Inr None \<Rightarrow> Inr (None, None)
      | Inr (Some names) \<Rightarrow>
          (case session_files names of
             [] \<Rightarrow> Inr (None, None)
           | latest # others \<Rightarrow>
               (case read_file_safely (session_file fs latest) of
                  Inl e \<Rightarrow> Inl e
                | Inr content \<Rightarrow>
                    Inr (Some latest,
                         (case content of
                            None \<Rightarrow> None
                          | Some c \<Rightarrow>
                              if c \<noteq> [] then summary_loop (split_on nl c) else None)))))"

subsection \<open>Composing the message\<close>

definition intro_line :: string where
  "intro_line = ''This project uses **Directions** for documentation and workflow.''"

definition closing_line :: string where
  "closing_line = ''Use `/status` for full details or `/log` to update the session log.''"

text \<open>A line appended under \<^verbatim>\<open>if value:\<close>, with the text before and after the value.\<close>

fun part_if :: "string \<Rightarrow> string option \<Rightarrow> string \<Rightarrow> string list" where
  "part_if before None after = []"
| "part_if before (Some v) after = (if v = [] then [] else [before @ v @ after])"

text \<open>The list \<^verbatim>\<open>parts\<close> of \<^verbatim>\<open>build_context_message\<close>, from the five values it is built of.\<close>

definition message_parts ::
    "string option \<Rightarrow> string option \<Rightarrow> string list \<Rightarrow> string option \<Rightarrow> string option
     \<Rightarrow> string list" where
  "message_parts phase focus blockers latest_session session_summary =
     [intro_line]
     @ part_if ''**Current Phase:** '' phase []
     @ part_if ''**Current Focus:** '' focus []
     @ (if blockers \<noteq> [] then [''**Blockers:** '' @ join '', '' blockers] else [])
     @ (if truthy latest_session
        then part_if ''**Last Session:** '' latest_session []
             @ part_if ''  _'' session_summary ''_''
        else [])
     @ [[]]
     @ [closing_line]"

text \<open>The returned dictionary, as the list of its items.\<close>

type_synonym result_dict = "(string \<times> string) list"

definition compose :: "string option \<Rightarrow> string option \<Rightarrow> string list \<Rightarrow> string option
     \<Rightarrow> string option \<Rightarrow> result_dict" where
  "compose phase focus blockers latest_session session_summary =
     [(''message'', join [nl] (message_parts phase focus blockers latest_session session_summary))]"

text \<open>
  The three extractions run under \<^verbatim>\<open>if state_content:\<close>; an exception of any step leaves
  the function at once.
\<close>

definition extract_state ::
    "string option \<Rightarrow> py_error + (string option \<times> string option \<times> string list)" where
  "extract_state state_content =
     (case state_content of
        None \<Rightarrow> Inr (None, None, [])
      | Some c \<Rightarrow>
          if c = [] then Inr (None, None, [])
          else (case extract_current_phase c of
                  Inl e \<Rightarrow> Inl e
                | Inr phase \<Rightarrow>
                    (case extract_current_focus c of
                       Inl e \<Rightarrow> Inl e
                     | Inr focus \<Rightarrow> Inr (phase, focus, extract_blockers c))))"

definition build_context_message :: "filesystem \<Rightarrow> py_error + result_dict" where
  "build_context_message fs =
     (case read_file_safely (project_state fs) of
        Inl e \<Rightarrow> Inl e
      | Inr state_content \<Rightarrow>
          (case extract_state state_content of
             Inl e \<Rightarrow> Inl e
           | Inr (phase, focus, blockers) \<Rightarrow>
               (case get_latest_session fs of
                  Inl e \<Rightarrow> Inl e
                | Inr (latest_session, session_summary) \<Rightarrow>
                    Inr (compose phase focus blockers latest_session session_summary))))"

definition build_non_directions_message :: result_dict where
  "build_non_directions_message =
     [(''message'',
       ''What would you like to do?\<newline>\<newline>| Command | What it does |\<newline>''
       @ ''|---------|------------|\<newline>''
       @ ''| `/setup` | Detect project state, set up or migrate Directions |\<newline>''
       @ ''| `/status` | Check current phase, focus, blockers, last session |\<newline>''
       @ ''| `/log` | Create or update today's session log |\<newline>''
       @ ''| `/decide` | Record an architectural/design decision |\<newline>''
       @ ''| `/interview` | Run the full discovery interview |\<newline>''
       @ ''| `/learned` | Add a term to your personal glossary |\<newline>''
       @ ''| `/reorg` | Reorganize folder structure (numbered folders) |\<newline>''
       @ ''| `/update-directions` | Pull latest Directions from GitHub |\<newline>\<newline>''
       @ ''Or just tell me what you're working on.'')]"

text \<open>\<^verbatim>\<open>main\<close>: the dictionary that is printed, or the exception that ends the run.\<close>

definition main :: "filesystem \<Rightarrow> py_error + result_dict" where
  "main fs =
     (case find_project_root fs of
        Inl e \<Rightarrow> Inl e
      | Inr project_root \<Rightarrow>
          (case marker_exists fs of
             Inl e \<Rightarrow> Inl e
           | Inr found \<Rightarrow>
               if found then build_context_message fs
               else Inr build_non_directions_message))"

subsection \<open>Vocabulary of the claims\<close>

text \<open>The two tests \<^verbatim>\<open>extract_current_phase\<close> makes on a line, and those of the focus.\<close>

definition phase_label :: "string \<Rightarrow> bool" where
  "phase_label line = (startswith line ''**Phase:**'' \<or> startswith line ''Phase:'')"

definition phase_phrase :: "string \<Rightarrow> bool" where
  "phase_phrase line = contains (lower line) ''current phase''"

definition focus_label :: "string \<Rightarrow> bool" where
  "focus_label line = (startswith line ''**Focus:**'' \<or> startswith line ''Focus:'')"

definition focus_phrase :: "string \<Rightarrow> bool" where
  "focus_phrase line = contains (lower line) ''current focus''"


text \<open>
  A line that can serve as summary, after trimming: not empty, not a heading, longer
  than 10 characters.
\<close>

definition meaningful :: "string \<Rightarrow> bool" where
  "meaningful line = (line \<noteq> [] \<and> \<not> startswith line ''#'' \<and> length line > 10)"

text \<open>The names among which the latest session is chosen.\<close>

definition qualifying :: "string list \<Rightarrow> string set" where
  "qualifying names = {name \<in> set names. endswith name ''.md'' \<and> name \<noteq> ''_index.md''}"


section \<open>Facts about the text primitives and the router loops\<close>

lemma startswith_iff: "startswith s p \<longleftrightarrow> (\<exists>post. s = p @ post)"
  by (induction s p rule: startswith.induct) auto

lemma contains_iff: "contains s sub \<longleftrightarrow> (\<exists>pre post. s = pre @ sub @ post)"
proof (induction s)
  case Nil
  show ?case by (cases sub) auto
next
  case (Cons c cs)
  show ?case
  proof
    assume "contains (c # cs) sub"
    then consider "startswith (c # cs) sub" | "contains cs sub" by auto
    then show "\<exists>pre post. c # cs = pre @ sub @ post"
    proof cases
      case 1
      then obtain post where "c # cs = sub @ post" using startswith_iff by blast
      then have "c # cs = [] @ sub @ post" by simp
      then show ?thesis by blast
    next
      case 2
      then obtain pre post where "cs = pre @ sub @ post" using Cons.IH by blast
      then have "c # cs = (c # pre) @ sub @ post" by simp
      then show ?thesis by blast
    qed
  next
    assume "\<exists>pre post. c # cs = pre @ sub @ post"
    then obtain pre post where eq: "c # cs = pre @ sub @ post" by blast
    show "contains (c # cs) sub"
    proof (cases pre)
      case Nil
      with eq have "startswith (c # cs) sub" using startswith_iff by auto
      then show ?thesis by simp
    next
      case (Cons a pre')
      with eq have "cs = pre' @ sub @ post" by simp
      then have "contains cs sub" using Cons.IH by blast
      then show ?thesis by simp
    qed
  qed
qed

lemma last_char_append: "last_char prev (xs @ ys) = last_char (last_char prev xs) ys"
  by (induction xs arbitrary: prev) auto

lemma bounded_match_here_iff:
  "bounded_match_here prev s keyword \<longleftrightarrow>
     (\<exists>post. s = keyword @ post \<and> word_boundary prev (first_char (keyword @ post))
        \<and> word_boundary (last_char prev keyword) (first_char post))"
  unfolding bounded_match_here_def startswith_iff by auto

lemma re_search_from_iff:
  "re_search_from prev s keyword \<longleftrightarrow>
     (\<exists>pre post. s = pre @ keyword @ post
        \<and> word_boundary (last_char prev pre) (first_char (keyword @ post))
        \<and> word_boundary (last_char prev (pre @ keyword)) (first_char post))"
proof (induction s arbitrary: prev)
  case Nil
  show ?case by (auto simp: bounded_match_here_iff)
next
  case (Cons c cs)
  show ?case (is "?L \<longleftrightarrow> ?R")
  proof
    assume ?L
    then consider "bounded_match_here prev (c # cs) keyword" | "re_search_from (Some c) cs keyword"
      by auto
    then show ?R
    proof cases
      case 1
      then obtain post where "c # cs = [] @ keyword @ post"
        "word_boundary (last_char prev []) (first_char (keyword @ post))"
        "word_boundary (last_char prev ([] @ keyword)) (first_char post)"
        by (auto simp: bounded_match_here_iff)
      then show ?thesis by blast
    next
      case 2
      then obtain pre post where "cs = pre @ keyword @ post"
        "word_boundary (last_char (Some c) pre) (first_char (keyword @ post))"
        "word_boundary (last_char (Some c) (pre @ keyword)) (first_char post)"
        using Cons.IH by blast
      then have "c # cs = (c # pre) @ keyword @ post"
        "word_boundary (last_char prev (c # pre)) (first_char (keyword @ post))"
        "word_boundary (last_char prev ((c # pre) @ keyword)) (first_char post)"
        by simp_all
      then show ?thesis by blast
    qed
  next
    assume ?R
    then obtain pre post where eq: "c # cs = pre @ keyword @ post"
      and b1: "word_boundary (last_char prev pre) (first_char (keyword @ post))"
      and b2: "word_boundary (last_char prev (pre @ keyword)) (first_char post)"
      by blast
    show ?L
    proof (cases pre)
      case Nil
      with eq b1 b2 have "bounded_match_here prev (c # cs) keyword"
        by (auto simp: bounded_match_here_iff)
      then show ?thesis by simp
    next
      case (Cons a pre')
      with eq b1 b2 have "cs = pre' @ keyword @ post"
        "word_boundary (last_char (Some c) pre') (first_char (keyword @ post))"
        "word_boundary (last_char (Some c) (pre' @ keyword)) (first_char post)"
        by simp_all
      then have "re_search_from (Some c) cs keyword" using Cons.IH by blast
      then show ?thesis by simp
    qed
  qed
qed

lemma any_keyword_matches_iff:
  "any_keyword_matches ks pl \<longleftrightarrow> (\<exists>k\<in>set ks. keyword_matches k pl)"
  by (induction ks) auto

lemma rule_matches_iff: "rule_matches m pl \<longleftrightarrow> any_keyword_matches (keywords_of m) pl"
  by (simp add: rule_matches_def any_keyword_matches_iff list_ex_iff)

lemma first_matching_least:
  "i < length ms \<Longrightarrow> rule_matches (ms ! i) pl \<Longrightarrow>
   \<exists>k\<le>i. first_matching ms pl = Some (ms ! k) \<and> rule_matches (ms ! k) pl
          \<and> (\<forall>k'<k. \<not> rule_matches (ms ! k') pl)"
proof (induction ms arbitrary: i)
  case Nil
  then show ?case by simp
next
  case (Cons m ms)
  show ?case
  proof (cases "rule_matches m pl")
    case True
    then have "first_matching (m # ms) pl = Some ((m # ms) ! 0) \<and> rule_matches ((m # ms) ! 0) pl
        \<and> (\<forall>k'<0. \<not> rule_matches ((m # ms) ! k') pl)"
      by (simp add: rule_matches_iff)
    then show ?thesis by blast
  next
    case False
    with Cons.prems obtain i' where i': "i = Suc i'" by (cases i) auto
    with Cons.prems have "i' < length ms" "rule_matches (ms ! i') pl" by auto
    from Cons.IH[OF this] obtain k where k: "k \<le> i'" "first_matching ms pl = Some (ms ! k)"
      "rule_matches (ms ! k) pl" "\<forall>k'<k. \<not> rule_matches (ms ! k') pl" by blast
    have "\<forall>k'<Suc k. \<not> rule_matches ((m # ms) ! k') pl"
    proof (intro allI impI)
      fix k' assume "k' < Suc k"
      then show "\<not> rule_matches ((m # ms) ! k') pl"
        using False k(4) by (cases k') auto
    qed
    with k False i' have "Suc k \<le> i \<and> first_matching (m # ms) pl = Some ((m # ms) ! Suc k)
       \<and> rule_matches ((m # ms) ! Suc k) pl \<and> (\<forall>k'<Suc k. \<not> rule_matches ((m # ms) ! k') pl)"
      by (simp add: rule_matches_iff)
    then show ?thesis by blast
  qed
qed

lemma distinct_docs: "distinct (map doc DOC_MAPPINGS)"
  by (simp add: DOC_MAPPINGS_def)

lemma length_DOC_MAPPINGS: "length DOC_MAPPINGS = 12"
  by (simp add: DOC_MAPPINGS_def)

lemma lower_append: "lower (a @ b) = lower a @ lower b"
  by (simp add: lower_def)


lemma crash_keyword:
  "prompt = pre @ mid @ post \<Longrightarrow> lower mid = ''crash''
   \<Longrightarrow> rule_matches (DOC_MAPPINGS ! 3) (lower prompt)"
proof -
  assume a: "prompt = pre @ mid @ post" "lower mid = ''crash''"
  then have "lower prompt = lower pre @ ''crash'' @ lower post"
    by (simp add: lower_append)
  then have "contains (lower prompt) ''crash''"
    using contains_iff by blast
  then have "keyword_matches ''crash'' (lower prompt)"
    by (simp add: keyword_matches_def)
  then show ?thesis
    by (simp add: rule_matches_def DOC_MAPPINGS_def)
qed

lemma nth_in_take: "k < n \<Longrightarrow> n \<le> length xs \<Longrightarrow> xs ! k \<in> set (take n xs)"
  by (metis in_set_conv_nth length_take min.absorb2 nth_take)

section \<open>Facts about the extraction loops\<close>

lemma split1_snd_prefix:
  "startswith line p \<Longrightarrow> CHR '':'' \<in> set p \<Longrightarrow> \<exists>v. split1_snd (CHR '':'') line = Some v"
  by (induction line p rule: startswith.induct) auto

lemma split1_snd_contains:
  "contains line '':'' \<Longrightarrow> \<exists>v. split1_snd (CHR '':'') line = Some v"
  by (induction line) auto

lemma extract_field_skip:
  "\<forall>l\<in>set pre. \<not> (startswith l bold \<or> startswith l plain) \<and> \<not> contains (lower l) phrase
   \<Longrightarrow> extract_field bold plain phrase (pre @ rest) = extract_field bold plain phrase rest"
  by (induction pre) auto

lemma extract_field_none:
  "\<forall>l\<in>set ls. \<not> (startswith l bold \<or> startswith l plain) \<and> \<not> contains (lower l) phrase
   \<Longrightarrow> extract_field bold plain phrase ls = Inr None"
  by (induction ls) auto

lemma label_value_ok:
  "split1_snd (CHR '':'') line = Some v \<Longrightarrow> label_value line = Inr (Some (strip_chars (strip v) ''*''))"
  by (simp add: label_value_def)

lemma phrase_value_ok:
  "split1_snd (CHR '':'') line = Some v \<Longrightarrow> contains line '':'' \<Longrightarrow> phrase_value line = Inr (Some (strip v))"
  by (simp add: phrase_value_def)


lemma extract_field_decides:
  assumes "\<forall>l\<in>set pre. \<not> (startswith l bold \<or> startswith l plain) \<and> \<not> contains (lower l) phrase"
    and "CHR '':'' \<in> set bold" and "CHR '':'' \<in> set plain"
  shows "(startswith line bold \<or> startswith line plain \<longrightarrow>
            (\<exists>v. split1_snd (CHR '':'') line = Some v
               \<and> extract_field bold plain phrase (pre @ line # rest) = Inr (Some (strip_chars (strip v) ''*''))))
       \<and> (\<not> (startswith line bold \<or> startswith line plain) \<and> contains (lower line) phrase \<and> \<not> contains line '':'' \<longrightarrow>
            extract_field bold plain phrase (pre @ line # rest) = Inr None)
       \<and> (\<not> (startswith line bold \<or> startswith line plain) \<and> contains (lower line) phrase \<and> contains line '':'' \<longrightarrow>
            (\<exists>v. split1_snd (CHR '':'') line = Some v
               \<and> extract_field bold plain phrase (pre @ line # rest) = Inr (Some (strip v))))"
proof -
  have skip: "extract_field bold plain phrase (pre @ line # rest) = extract_field bold plain phrase (line # rest)"
    using assms(1) by (rule extract_field_skip)
  have a: "\<exists>v. split1_snd (CHR '':'') line = Some v
               \<and> extract_field bold plain phrase (pre @ line # rest) = Inr (Some (strip_chars (strip v) ''*''))"
    if l: "startswith line bold \<or> startswith line plain"
  proof -
    from l obtain v where v: "split1_snd (CHR '':'') line = Some v"
      using split1_snd_prefix assms(2,3) by blast
    with l skip show ?thesis by (simp add: label_value_ok)
  qed
  have b: "extract_field bold plain phrase (pre @ line # rest) = Inr None"
    if "\<not> (startswith line bold \<or> startswith line plain) \<and> contains (lower line) phrase \<and> \<not> contains line '':''"
    using that skip by (simp add: phrase_value_def)
  have c: "\<exists>v. split1_snd (CHR '':'') line = Some v
               \<and> extract_field bold plain phrase (pre @ line # rest) = Inr (Some (strip v))"
    if l: "\<not> (startswith line bold \<or> startswith line plain) \<and> contains (lower line) phrase \<and> contains line '':''"
  proof -
    from l obtain v where v: "split1_snd (CHR '':'') line = Some v"
      using split1_snd_contains by blast
    with l skip show ?thesis by (simp add: phrase_value_ok)
  qed
  from a b c show ?thesis by blast
qed

lemma message_parts_absent:
  "\<not> truthy phase \<Longrightarrow> \<not> truthy focus \<Longrightarrow> \<not> truthy latest_session
   \<Longrightarrow> message_parts phase focus [] latest_session session_summary = [intro_line, [], closing_line]"
  by (cases phase; cases focus) (simp_all add: message_parts_def)





section \<open>Facts about the session locator and the pipeline\<close>

lemma set_session_files: "set (session_files names) = qualifying names"
proof -
  have "set (session_files names)
      = set (filter (\<lambda>name. name \<noteq> ''_index.md'') (glob_md names))"
    by (simp add: session_files_def)
  also have "\<dots> = {name \<in> set names. endswith name ''.md'' \<and> name \<noteq> ''_index.md''}"
    unfolding glob_md_def by auto
  finally show ?thesis by (simp add: qualifying_def)
qed

lemma session_files_empty: "qualifying names = {} \<Longrightarrow> session_files names = []"
  using set_session_files[of names] by simp

lemma sorted_snoc_greatest:
  fixes n :: "'a::linorder"
  assumes "sorted (bs @ [l])" and "n \<in> set (bs @ [l])" and "\<forall>m\<in>set (bs @ [l]). m \<le> n"
  shows "l = n"
proof -
  from assms(3) have "l \<le> n" by simp
  moreover from assms(1) have "\<forall>x\<in>set bs. x \<le> l" by (simp add: sorted_append)
  with assms(2) have "n \<le> l" by auto
  ultimately show ?thesis by simp
qed

lemma session_files_latest:
  assumes "latest \<in> qualifying names" and "\<forall>n\<in>qualifying names. n \<le> latest"
  shows "\<exists>others. session_files names = latest # others"
proof -
  define q where "q = sort (filter (\<lambda>name. name \<noteq> ''_index.md'') (glob_md names))"
  have sf: "session_files names = rev q"
    by (simp add: session_files_def q_def)
  have sq: "sorted q" by (simp add: q_def)
  have "set q = set (session_files names)" by (simp add: sf)
  then have setq: "set q = qualifying names" by (simp add: set_session_files)
  with assms(1) have "q \<noteq> []" by auto
  then obtain bs l where q: "q = bs @ [l]" by (cases q rule: rev_cases) auto
  have "l = latest"
  proof (rule sorted_snoc_greatest)
    show "sorted (bs @ [l])" using sq q by simp
    show "latest \<in> set (bs @ [l])" using assms(1) setq q by simp
    show "\<forall>m\<in>set (bs @ [l]). m \<le> latest" using assms(2) setq q by simp
  qed
  with q sf have "session_files names = latest # rev bs" by simp
  then show ?thesis by blast
qed

lemma summary_loop_skip:
  "\<forall>l\<in>set pre. \<not> meaningful (strip l) \<Longrightarrow> summary_loop (pre @ ls) = summary_loop ls"
  by (induction pre) (auto simp: meaningful_def Let_def)

lemma summary_loop_none:
  "\<forall>l\<in>set ls. \<not> meaningful (strip l) \<Longrightarrow> summary_loop ls = None"
  by (induction ls) (auto simp: meaningful_def Let_def)

lemma summary_loop_first:
  assumes "\<forall>l\<in>set pre. \<not> meaningful (strip l)" and "meaningful (strip raw)"
  shows "summary_loop (pre @ raw # rest)
     = Some (if length (strip raw) > 100 then take 100 (strip raw) @ ''...'' else strip raw)"
proof -
  have "summary_loop (pre @ raw # rest) = summary_loop (raw # rest)"
    using assms(1) by (rule summary_loop_skip)
  also have "\<dots> = Some (if length (strip raw) > 100 then take 100 (strip raw) @ ''...'' else strip raw)"
    using assms(2) by (simp add: meaningful_def Let_def)
  finally show ?thesis .
qed

lemma split_on_nonempty: "split_on sep s \<noteq> []"
  by (induction s) (auto split: list.splits)

lemma split_on_Nil: "split_on sep [] = [[]]"
  by simp

lemma not_meaningful_Nil: "\<not> meaningful (strip [])"
  by (simp add: meaningful_def strip_def strip_by_def)

lemma get_latest_session_text:
  assumes "sessions_dir fs = Inr (Some names)" and "session_files names = latest # others"
    and "session_file fs latest = Text c"
  shows "get_latest_session fs
     = Inr (Some latest, if c \<noteq> [] then summary_loop (split_on nl c) else None)"
  using assms by (simp add: get_latest_session_def)


lemma get_latest_session_no_dir:
  "sessions_dir fs = Inr None \<Longrightarrow> get_latest_session fs = Inr (None, None)"
  by (simp add: get_latest_session_def)

lemma get_latest_session_no_files:
  "sessions_dir fs = Inr (Some names) \<Longrightarrow> qualifying names = {}
   \<Longrightarrow> get_latest_session fs = Inr (None, None)"
  by (simp add: get_latest_session_def session_files_empty)

lemma summary_of_text:
  "(if c \<noteq> [] then summary_loop (split_on nl c) else None) = summary_loop (split_on nl c)"
proof (cases "c = []")
  case True
  have "summary_loop [[]] = None"
    using summary_loop_none[of "[[]]"] not_meaningful_Nil by simp
  with True show ?thesis by simp
next
  case False
  then show ?thesis by simp
qed

lemma get_latest_session_name:
  assumes "get_latest_session fs = Inr (name, summary)" and "summary \<noteq> None"
  shows "name \<noteq> None"
proof -
  from assms(1) obtain d where d: "sessions_dir fs = Inr d"
    by (cases "sessions_dir fs") (simp_all add: get_latest_session_def)
  show ?thesis
  proof (cases d)
    case None
    with d assms show ?thesis by (simp add: get_latest_session_def)
  next
    case (Some names)
    show ?thesis
    proof (cases "session_files names")
      case Nil
      with d Some assms show ?thesis by (simp add: get_latest_session_def)
    next
      case (Cons latest others)
      show ?thesis
      proof (cases "read_file_safely (session_file fs latest)")
        case (Inl e)
        with d Some Cons assms show ?thesis by (simp add: get_latest_session_def)
      next
        case (Inr content)
        with d Some Cons assms have "name = Some latest" by (simp add: get_latest_session_def)
        then show ?thesis by simp
      qed
    qed
  qed
qed





lemma qualifying_subset: "qualifying names \<subseteq> set names"
  by (auto simp: qualifying_def)




lemma qualifying_code: "qualifying names = set (filter (\<lambda>name. endswith name ''.md'' \<and> name \<noteq> ''_index.md'') names)"
  by (auto simp: qualifying_def)

lemmas router_eval =
  find_matching_doc_def DOC_MAPPINGS_def lower_def lower_char_def is_upper_def
  keyword_matches_def re_search_bounded_def bounded_match_here_def word_boundary_def
  is_word_char_def rule_matches_def

section \<open>The router's claims\<close>

text \<open>
  C1, as the code has it. A prompt that contains \<^verbatim>\<open>crash\<close> in any casing is never left
  without a rule: the router returns one of the first four rules of the table, the
  debugging rule or a rule before it. It returns the debugging rule
  (\<^verbatim>\<open>31_debugging.md\<close>, the fourth rule) whenever no keyword of the three rules before it
  matches the prompt.
\<close>

theorem crash_routed:
  assumes "prompt = pre @ mid @ post" and "lower mid = ''crash''"
  shows "(\<exists>m \<in> set (take 4 DOC_MAPPINGS). find_matching_doc prompt = Some m)
       \<and> ((\<forall>m \<in> set (take 3 DOC_MAPPINGS). \<not> rule_matches m (lower prompt))
            \<longrightarrow> find_matching_doc prompt = Some (DOC_MAPPINGS ! 3))
       \<and> doc (DOC_MAPPINGS ! 3) = ''31_debugging.md''"
proof -
  have m3: "rule_matches (DOC_MAPPINGS ! 3) (lower prompt)"
    using assms by (rule crash_keyword)
  have "3 < length DOC_MAPPINGS" by (simp add: length_DOC_MAPPINGS)
  from first_matching_least[OF this m3]
  obtain k where k: "k \<le> 3" "find_matching_doc prompt = Some (DOC_MAPPINGS ! k)"
    "rule_matches (DOC_MAPPINGS ! k) (lower prompt)"
    unfolding find_matching_doc_def by blast
  have "DOC_MAPPINGS ! k \<in> set (take 4 DOC_MAPPINGS)"
    using k(1) by (intro nth_in_take) (simp_all add: length_DOC_MAPPINGS)
  then have first: "\<exists>m \<in> set (take 4 DOC_MAPPINGS). find_matching_doc prompt = Some m"
    using k(2) by blast
  have second: "find_matching_doc prompt = Some (DOC_MAPPINGS ! 3)"
    if none: "\<forall>m \<in> set (take 3 DOC_MAPPINGS). \<not> rule_matches m (lower prompt)"
  proof (cases "k = 3")
    case True
    with k(2) show ?thesis by simp
  next
    case False
    with k(1) have "k < 3" by simp
    then have "DOC_MAPPINGS ! k \<in> set (take 3 DOC_MAPPINGS)"
      by (intro nth_in_take) (simp_all add: length_DOC_MAPPINGS)
    with none k(3) show ?thesis by blast
  qed
  have "doc (DOC_MAPPINGS ! 3) = ''31_debugging.md''"
    by (simp add: DOC_MAPPINGS_def)
  with first second show ?thesis by blast
qed

text \<open>The prompt \<^verbatim>\<open>The app CRASHes\<close> is routed to the debugging rule.\<close>

theorem crash_routed_witness:
  "''The app CRASHes'' = ''The app '' @ ''CRASH'' @ ''es'' \<and> lower ''CRASH'' = ''crash''
   \<and> find_matching_doc ''The app CRASHes'' = Some (DOC_MAPPINGS ! 3)"
proof -
  have h1: "''The app CRASHes'' = ''The app '' @ ''CRASH'' @ ''es''" by simp
  have h2: "lower ''CRASH'' = ''crash''" by code_simp
  have h3: "\<forall>m \<in> set (take 3 DOC_MAPPINGS). \<not> rule_matches m (lower ''The app CRASHes'')"
    by code_simp
  from crash_routed[OF h1 h2] h3 have "find_matching_doc ''The app CRASHes'' = Some (DOC_MAPPINGS ! 3)"
    by blast
  with h1 h2 show ?thesis by blast
qed

text \<open>
  C1 as stated fails: \<^verbatim>\<open>frame crash\<close> contains \<^verbatim>\<open>crash\<close>, and the router returns the
  coordinate rule, whose keyword \<^verbatim>\<open>frame\<close> comes first in the table.
\<close>

theorem crash_routed_counterexample:
  "contains (lower ''frame crash'') ''crash''
   \<and> map_option doc (find_matching_doc ''frame crash'') = Some ''21_coordinate-systems.md''
   \<and> map_option doc (find_matching_doc ''frame crash'') \<noteq> Some ''31_debugging.md''"
  by (simp add: router_eval)

text \<open>
  C5. When keywords of two different rules match the prompt, the router returns the
  earliest rule of the table that has a matching keyword: it is at or before the
  earlier of the two, no rule before it matches, and it is never the later of the
  two. Only which rules match enters the result, not where in the prompt they do.
\<close>

theorem first_rule_wins:
  assumes "i < j" and "j < length DOC_MAPPINGS"
    and "rule_matches (DOC_MAPPINGS ! i) (lower prompt)"
    and "rule_matches (DOC_MAPPINGS ! j) (lower prompt)"
  shows "(\<exists>k\<le>i. find_matching_doc prompt = Some (DOC_MAPPINGS ! k)
            \<and> rule_matches (DOC_MAPPINGS ! k) (lower prompt)
            \<and> (\<forall>k'<k. \<not> rule_matches (DOC_MAPPINGS ! k') (lower prompt)))
       \<and> find_matching_doc prompt \<noteq> Some (DOC_MAPPINGS ! j)"
proof -
  from assms have "i < length DOC_MAPPINGS" by simp
  from first_matching_least[OF this assms(3)]
  obtain k where k: "k \<le> i" "find_matching_doc prompt = Some (DOC_MAPPINGS ! k)"
    "rule_matches (DOC_MAPPINGS ! k) (lower prompt)"
    "\<forall>k'<k. \<not> rule_matches (DOC_MAPPINGS ! k') (lower prompt)"
    unfolding find_matching_doc_def by blast
  have kj: "k < length DOC_MAPPINGS" "j < length DOC_MAPPINGS" "k \<noteq> j"
    using k(1) assms(1,2) by simp_all
  then have "map doc DOC_MAPPINGS ! k \<noteq> map doc DOC_MAPPINGS ! j"
    using distinct_docs nth_eq_iff_index_eq[of "map doc DOC_MAPPINGS" k j] by simp
  then have "DOC_MAPPINGS ! k \<noteq> DOC_MAPPINGS ! j"
    using kj by auto
  with k show ?thesis by auto
qed

text \<open>
  \<^verbatim>\<open>release after the crash\<close> has a keyword of the debugging rule and, earlier in the text,
  one of the production rule; the production rule, later in the table, is not returned.
\<close>

theorem first_rule_wins_witness:
  "(3::nat) < 4 \<and> 4 < length DOC_MAPPINGS
   \<and> rule_matches (DOC_MAPPINGS ! 3) (lower ''release after the crash'')
   \<and> rule_matches (DOC_MAPPINGS ! 4) (lower ''release after the crash'')
   \<and> find_matching_doc ''release after the crash'' \<noteq> Some (DOC_MAPPINGS ! 4)
   \<and> doc (DOC_MAPPINGS ! 3) = ''31_debugging.md''
   \<and> doc (DOC_MAPPINGS ! 4) = ''30_production-checklist.md''"
proof -
  have h1: "(3::nat) < 4" by simp
  have h2: "4 < length DOC_MAPPINGS" by (simp add: length_DOC_MAPPINGS)
  have h3: "rule_matches (DOC_MAPPINGS ! 3) (lower ''release after the crash'')"
    by (simp add: router_eval)
  have h4: "rule_matches (DOC_MAPPINGS ! 4) (lower ''release after the crash'')"
    by (simp add: router_eval)
  have h5: "doc (DOC_MAPPINGS ! 3) = ''31_debugging.md'' \<and> doc (DOC_MAPPINGS ! 4) = ''30_production-checklist.md''"
    by (simp add: DOC_MAPPINGS_def)
  from first_rule_wins[OF h1 h2 h3 h4]
  have "find_matching_doc ''release after the crash'' \<noteq> Some (DOC_MAPPINGS ! 4)" by blast
  with h1 h2 h3 h4 h5 show ?thesis by blast
qed

text \<open>
  C6. A keyword of at most four characters matches exactly when it occurs in the text
  with a word boundary on both sides. The prompt \<^verbatim>\<open>pray\<close> does not match the keyword
  \<^verbatim>\<open>pr\<close>, and the router returns nothing for it.
\<close>

theorem short_keywords_word_bounded:
  "(length keyword \<le> 4 \<longrightarrow>
      (keyword_matches keyword s \<longleftrightarrow>
        (\<exists>pre post. s = pre @ keyword @ post
           \<and> word_boundary (last_char None pre) (first_char (keyword @ post))
           \<and> word_boundary (last_char None (pre @ keyword)) (first_char post))))
   \<and> \<not> keyword_matches ''pr'' (lower ''pray'')
   \<and> find_matching_doc ''pray'' = None"
proof -
  have "\<not> keyword_matches ''pr'' (lower ''pray'')"
    by (simp add: router_eval)
  moreover have "find_matching_doc ''pray'' = None"
    by (simp add: router_eval)
  ultimately show ?thesis
    by (simp add: keyword_matches_def re_search_bounded_def re_search_from_iff)
qed

text \<open>In \<^verbatim>\<open>Open a PR now\<close> the keyword \<^verbatim>\<open>pr\<close> stands between two spaces and matches.\<close>

theorem short_keywords_word_bounded_witness:
  "length ''pr'' \<le> 4 \<and> keyword_matches ''pr'' (lower ''Open a PR now'')
   \<and> (\<exists>pre post. lower ''Open a PR now'' = pre @ ''pr'' @ post
           \<and> word_boundary (last_char None pre) (first_char (''pr'' @ post))
           \<and> word_boundary (last_char None (pre @ ''pr'')) (first_char post))"
proof -
  have h1: "length ''pr'' \<le> 4" by simp
  have h2: "keyword_matches ''pr'' (lower ''Open a PR now'')"
    by code_simp
  from short_keywords_word_bounded[of "''pr''" "lower ''Open a PR now''"] h1 h2
  have "\<exists>pre post. lower ''Open a PR now'' = pre @ ''pr'' @ post
           \<and> word_boundary (last_char None pre) (first_char (''pr'' @ post))
           \<and> word_boundary (last_char None (pre @ ''pr'')) (first_char post)"
    by blast
  with h1 h2 show ?thesis by blast
qed

section \<open>The extractor's claims\<close>

text \<open>
  C2, as the code has it. Phase extraction is one pass over the lines: the first line
  that starts with the label (\<^verbatim>\<open>Phase:\<close> or \<^verbatim>\<open>**Phase:**\<close>) or contains \<^verbatim>\<open>current phase\<close> in
  any casing decides. If it starts with the label, the phase is computed from its text
  after the first colon (white space stripped, then asterisks stripped from both ends).
  If it only contains the phrase, the phase is the text after the first colon stripped
  of white space when the line has a colon, and absent when it has none. When no line
  passes either test the phase is absent. The same holds for the focus with
  \<^verbatim>\<open>Focus:\<close>, \<^verbatim>\<open>**Focus:**\<close> and \<^verbatim>\<open>current focus\<close>.
\<close>

theorem first_qualifying_line_decides:
  "(split_on nl content = pre @ line # rest \<and> (\<forall>l\<in>set pre. \<not> phase_label l \<and> \<not> phase_phrase l) \<longrightarrow>
      (phase_label line \<longrightarrow>
         (\<exists>v. split1_snd (CHR '':'') line = Some v
            \<and> extract_current_phase content = Inr (Some (strip_chars (strip v) ''*''))))
    \<and> (\<not> phase_label line \<and> phase_phrase line \<and> \<not> contains line '':'' \<longrightarrow>
         extract_current_phase content = Inr None)
    \<and> (\<not> phase_label line \<and> phase_phrase line \<and> contains line '':'' \<longrightarrow>
         (\<exists>v. split1_snd (CHR '':'') line = Some v
            \<and> extract_current_phase content = Inr (Some (strip v)))))
   \<and> ((\<forall>l\<in>set (split_on nl content). \<not> phase_label l \<and> \<not> phase_phrase l) \<longrightarrow>
        extract_current_phase content = Inr None)
   \<and> (split_on nl content = pre @ line # rest \<and> (\<forall>l\<in>set pre. \<not> focus_label l \<and> \<not> focus_phrase l) \<longrightarrow>
      (focus_label line \<longrightarrow>
         (\<exists>v. split1_snd (CHR '':'') line = Some v
            \<and> extract_current_focus content = Inr (Some (strip_chars (strip v) ''*''))))
    \<and> (\<not> focus_label line \<and> focus_phrase line \<and> \<not> contains line '':'' \<longrightarrow>
         extract_current_focus content = Inr None)
    \<and> (\<not> focus_label line \<and> focus_phrase line \<and> contains line '':'' \<longrightarrow>
         (\<exists>v. split1_snd (CHR '':'') line = Some v
            \<and> extract_current_focus content = Inr (Some (strip v)))))
   \<and> ((\<forall>l\<in>set (split_on nl content). \<not> focus_label l \<and> \<not> focus_phrase l) \<longrightarrow>
        extract_current_focus content = Inr None)"
proof -
  have p1: "(phase_label line \<longrightarrow>
         (\<exists>v. split1_snd (CHR '':'') line = Some v
            \<and> extract_current_phase content = Inr (Some (strip_chars (strip v) ''*''))))
    \<and> (\<not> phase_label line \<and> phase_phrase line \<and> \<not> contains line '':'' \<longrightarrow>
         extract_current_phase content = Inr None)
    \<and> (\<not> phase_label line \<and> phase_phrase line \<and> contains line '':'' \<longrightarrow>
         (\<exists>v. split1_snd (CHR '':'') line = Some v
            \<and> extract_current_phase content = Inr (Some (strip v))))"
    if "split_on nl content = pre @ line # rest \<and> (\<forall>l\<in>set pre. \<not> phase_label l \<and> \<not> phase_phrase l)"
    using that extract_field_decides[of pre "''**Phase:**''" "''Phase:''" "''current phase''" line rest]
    unfolding extract_current_phase_def phase_label_def phase_phrase_def by simp
  have p2: "extract_current_phase content = Inr None"
    if "\<forall>l\<in>set (split_on nl content). \<not> phase_label l \<and> \<not> phase_phrase l"
    using that extract_field_none[of "split_on nl content" "''**Phase:**''" "''Phase:''" "''current phase''"]
    unfolding extract_current_phase_def phase_label_def phase_phrase_def by simp
  have f1: "(focus_label line \<longrightarrow>
         (\<exists>v. split1_snd (CHR '':'') line = Some v
            \<and> extract_current_focus content = Inr (Some (strip_chars (strip v) ''*''))))
    \<and> (\<not> focus_label line \<and> focus_phrase line \<and> \<not> contains line '':'' \<longrightarrow>
         extract_current_focus content = Inr None)
    \<and> (\<not> focus_label line \<and> focus_phrase line \<and> contains line '':'' \<longrightarrow>
         (\<exists>v. split1_snd (CHR '':'') line = Some v
            \<and> extract_current_focus content = Inr (Some (strip v))))"
    if "split_on nl content = pre @ line # rest \<and> (\<forall>l\<in>set pre. \<not> focus_label l \<and> \<not> focus_phrase l)"
    using that extract_field_decides[of pre "''**Focus:**''" "''Focus:''" "''current focus''" line rest]
    unfolding extract_current_focus_def focus_label_def focus_phrase_def by simp
  have f2: "extract_current_focus content = Inr None"
    if "\<forall>l\<in>set (split_on nl content). \<not> focus_label l \<and> \<not> focus_phrase l"
    using that extract_field_none[of "split_on nl content" "''**Focus:**''" "''Focus:''" "''current focus''"]
    unfolding extract_current_focus_def focus_label_def focus_phrase_def by simp
  from p1 p2 f1 f2 show ?thesis by blast
qed

text \<open>
  A label line after a heading gives the phase; a phrase line without a colon, reached
  past lines that fail both focus tests, leaves the focus absent.
\<close>

theorem first_qualifying_line_decides_witness:
  "split_on nl ''# State\<newline>Phase: Build\<newline>Notes on the current focus''
     = [''# State''] @ ''Phase: Build'' # [''Notes on the current focus'']
   \<and> \<not> phase_label ''# State'' \<and> \<not> phase_phrase ''# State'' \<and> phase_label ''Phase: Build''
   \<and> extract_current_phase ''# State\<newline>Phase: Build\<newline>Notes on the current focus''
       = Inr (Some ''Build'')
   \<and> \<not> focus_label ''Phase: Build'' \<and> \<not> focus_phrase ''Phase: Build''
   \<and> \<not> focus_label ''Notes on the current focus'' \<and> focus_phrase ''Notes on the current focus''
   \<and> \<not> contains ''Notes on the current focus'' '':''
   \<and> extract_current_focus ''# State\<newline>Phase: Build\<newline>Notes on the current focus''
       = Inr None"
proof -
  let ?doc = "''# State\<newline>Phase: Build\<newline>Notes on the current focus''"
  have s1: "split_on nl ?doc = [''# State''] @ ''Phase: Build'' # [''Notes on the current focus'']"
    by code_simp
  have s2: "split_on nl ?doc = [''# State'', ''Phase: Build''] @ ''Notes on the current focus'' # []"
    by code_simp
  have h1: "\<not> phase_label ''# State'' \<and> \<not> phase_phrase ''# State''" by code_simp
  have h2: "phase_label ''Phase: Build''" by code_simp
  have h3: "\<not> focus_label ''# State'' \<and> \<not> focus_phrase ''# State''" by code_simp
  have h4: "\<not> focus_label ''Phase: Build'' \<and> \<not> focus_phrase ''Phase: Build''" by code_simp
  have h5: "\<not> focus_label ''Notes on the current focus'' \<and> focus_phrase ''Notes on the current focus''
     \<and> \<not> contains ''Notes on the current focus'' '':''" by code_simp
  have v: "split1_snd (CHR '':'') ''Phase: Build'' = Some '' Build''" by code_simp
  have t: "strip_chars (strip '' Build'') ''*'' = ''Build''" by code_simp
  from first_qualifying_line_decides[of ?doc "[''# State'']" "''Phase: Build''" "[''Notes on the current focus'']"]
    s1 h1 h2
  have "\<exists>v. split1_snd (CHR '':'') ''Phase: Build'' = Some v
            \<and> extract_current_phase ?doc = Inr (Some (strip_chars (strip v) ''*''))"
    by simp
  with v t have phase: "extract_current_phase ?doc = Inr (Some ''Build'')" by simp
  from first_qualifying_line_decides[of ?doc "[''# State'', ''Phase: Build'']" "''Notes on the current focus''" "[]"]
    s2 h3 h4 h5
  have focus: "extract_current_focus ?doc = Inr None"
    by simp
  from s1 h1 h2 h4 h5 phase focus show ?thesis by blast
qed

text \<open>
  C2 as stated fails: the second line of this document starts with \<^verbatim>\<open>Phase:\<close> and would
  give \<^verbatim>\<open>Build\<close>, but the phrase line before it is reached first and gives \<^verbatim>\<open>Draft\<close>.
\<close>

theorem tier_priority_counterexample:
  "split_on nl ''Current phase: Draft\<newline>Phase: Build'' = [''Current phase: Draft'', ''Phase: Build'']
   \<and> phase_label ''Phase: Build''
   \<and> label_value ''Phase: Build'' = Inr (Some ''Build'')
   \<and> extract_current_phase ''Current phase: Draft\<newline>Phase: Build'' = Inr (Some ''Draft'')
   \<and> extract_current_phase ''Current phase: Draft\<newline>Phase: Build'' \<noteq> Inr (Some ''Build'')"
  by code_simp

text \<open>
  C3 against the code: on \<^verbatim>\<open>**Phase:** Build\<close> the text after the first colon is
  \<^verbatim>\<open>** Build\<close>; stripping white space changes nothing, stripping asterisks then leaves
  the blank in front, so the phase is \<^verbatim>\<open>Build\<close> with a leading blank, and likewise the
  focus. The unmarked labels of the same document give the values without the blank.
\<close>

theorem bold_label_keeps_blank:
  "extract_current_phase ''**Phase:** Build\<newline>**Focus:** Auth'' = Inr (Some '' Build'')
   \<and> extract_current_focus ''**Phase:** Build\<newline>**Focus:** Auth'' = Inr (Some '' Auth'')
   \<and> extract_current_phase ''**Phase:** Build\<newline>**Focus:** Auth'' \<noteq> Inr (Some ''Build'')
   \<and> extract_current_focus ''**Phase:** Build\<newline>**Focus:** Auth'' \<noteq> Inr (Some ''Auth'')
   \<and> extract_current_phase ''Phase: Build\<newline>Focus: Auth'' = Inr (Some ''Build'')
   \<and> extract_current_focus ''Phase: Build\<newline>Focus: Auth'' = Inr (Some ''Auth'')"
  by code_simp

section \<open>The composer's claim\<close>

text \<open>
  C4, as the code has it. With phase, focus and latest session absent or empty and no
  blockers, the parts are the introductory line, the empty line that is always put
  before the closing line, and the closing line; no line stands for an absent field.
\<close>

theorem absent_fields_omitted:
  assumes "\<not> truthy phase" and "\<not> truthy focus" and "blockers = []" and "\<not> truthy latest_session"
  shows "message_parts phase focus blockers latest_session session_summary
           = [intro_line, [], closing_line]
       \<and> compose phase focus blockers latest_session session_summary
           = [(''message'', intro_line @ [nl] @ [nl] @ closing_line)]"
  using assms by (simp add: message_parts_absent compose_def)

text \<open>An absent phase, an empty focus, no blockers and no session.\<close>

theorem absent_fields_omitted_witness:
  "\<not> truthy None \<and> \<not> truthy (Some []) \<and> ([]::string list) = []
   \<and> compose None (Some []) [] None None = [(''message'', intro_line @ [nl] @ [nl] @ closing_line)]"
proof -
  have h1: "\<not> truthy None" by simp
  have h2: "\<not> truthy (Some [])" by simp
  have h3: "([]::string list) = []" by simp
  from absent_fields_omitted[OF h1 h2 h3 h1, of None]
  have "compose None (Some []) [] None None = [(''message'', intro_line @ [nl] @ [nl] @ closing_line)]"
    by blast
  with h1 h2 h3 show ?thesis by blast
qed

text \<open>
  C4 as stated fails: the message is not the introductory and the closing line alone,
  an empty line stands between them.
\<close>

theorem only_two_lines_counterexample:
  "message_parts None None [] None None \<noteq> [intro_line, closing_line]
   \<and> [] \<in> set (message_parts None None [] None None)
   \<and> compose None None [] None None \<noteq> [(''message'', join [nl] [intro_line, closing_line])]"
  by (simp add: message_parts_def compose_def)

section \<open>The blockers claim\<close>




section \<open>The locator's claims\<close>

text \<open>
  C8. Without the directory, or without a name in it that ends in \<^verbatim>\<open>.md\<close> and is not
  \<^verbatim>\<open>_index.md\<close>, both components are absent. Otherwise the name returned is the
  qualifying name that is greatest in the lexicographic order (the first in reverse
  order); when that file is read, the summary is made of the first line that after
  trimming is not empty, is no heading and has more than 10 characters: the trimmed
  line itself up to 100 characters, its first 100 characters followed by three dots
  beyond; without such a line the summary is absent.
\<close>

theorem latest_session_selected_and_summarised:
  "(sessions_dir fs = Inr None \<longrightarrow> get_latest_session fs = Inr (None, None))
   \<and> (sessions_dir fs = Inr (Some names) \<and> qualifying names = {}
        \<longrightarrow> get_latest_session fs = Inr (None, None))
   \<and> (sessions_dir fs = Inr (Some names) \<and> latest \<in> qualifying names
        \<and> (\<forall>n\<in>qualifying names. n \<le> latest) \<and> session_file fs latest = Text c
        \<longrightarrow> (split_on nl c = pre @ raw # rest \<and> (\<forall>l\<in>set pre. \<not> meaningful (strip l))
               \<and> meaningful (strip raw)
             \<longrightarrow> get_latest_session fs
                   = Inr (Some latest,
                          Some (if length (strip raw) > 100 then take 100 (strip raw) @ ''...''
                                else strip raw)))
          \<and> ((\<forall>l\<in>set (split_on nl c). \<not> meaningful (strip l))
             \<longrightarrow> get_latest_session fs = Inr (Some latest, None)))"
proof -
  have a: "get_latest_session fs = Inr (None, None)" if "sessions_dir fs = Inr None"
    using that by (rule get_latest_session_no_dir)
  have b: "get_latest_session fs = Inr (None, None)"
    if "sessions_dir fs = Inr (Some names) \<and> qualifying names = {}"
    using that by (simp add: get_latest_session_no_files)
  have c: "(split_on nl c = pre @ raw # rest \<and> (\<forall>l\<in>set pre. \<not> meaningful (strip l))
               \<and> meaningful (strip raw)
             \<longrightarrow> get_latest_session fs
                   = Inr (Some latest,
                          Some (if length (strip raw) > 100 then take 100 (strip raw) @ ''...''
                                else strip raw)))
          \<and> ((\<forall>l\<in>set (split_on nl c). \<not> meaningful (strip l))
             \<longrightarrow> get_latest_session fs = Inr (Some latest, None))"
    if h: "sessions_dir fs = Inr (Some names) \<and> latest \<in> qualifying names
        \<and> (\<forall>n\<in>qualifying names. n \<le> latest) \<and> session_file fs latest = Text c"
  proof -
    from h obtain others where "session_files names = latest # others"
      using session_files_latest by blast
    with h have g: "get_latest_session fs = Inr (Some latest, summary_loop (split_on nl c))"
      using get_latest_session_text[of fs names latest others c] by (simp add: summary_of_text)
    have c1: "get_latest_session fs
                   = Inr (Some latest,
                          Some (if length (strip raw) > 100 then take 100 (strip raw) @ ''...''
                                else strip raw))"
      if "split_on nl c = pre @ raw # rest \<and> (\<forall>l\<in>set pre. \<not> meaningful (strip l))
               \<and> meaningful (strip raw)"
      using that g summary_loop_first[of pre raw rest] by simp
    have c2: "get_latest_session fs = Inr (Some latest, None)"
      if "\<forall>l\<in>set (split_on nl c). \<not> meaningful (strip l)"
      using that g summary_loop_none[of "split_on nl c"] by simp
    from c1 c2 show ?thesis by blast
  qed
  from a b c show ?thesis by blast
qed

text \<open>
  Two logs, the index file and a text file: the later log is chosen, and its summary is
  the first line that is long enough, trimmed.
\<close>

theorem latest_session_selected_and_summarised_witness:
  "sessions_dir \<lparr>env_project_dir = None, getcwd = Inr ''/work'', marker_exists = Inr True,
        project_state = Raises FileNotFoundError,
       sessions_dir = Inr (Some [''2024-01-02.md'', ''_index.md'', ''2024-03-10.md'', ''notes.txt'']),
       session_file = (\<lambda>n. if n = ''2024-03-10.md''
         then Text ''# Log\<newline>\<newline>short\<newline>  Worked on the parser today  \<newline>more''
         else Raises FileNotFoundError)\<rparr>
     = Inr (Some [''2024-01-02.md'', ''_index.md'', ''2024-03-10.md'', ''notes.txt''])
   \<and> qualifying [''2024-01-02.md'', ''_index.md'', ''2024-03-10.md'', ''notes.txt'']
       = {''2024-01-02.md'', ''2024-03-10.md''}
   \<and> ''2024-01-02.md'' \<le> ''2024-03-10.md''
   \<and> split_on nl ''# Log\<newline>\<newline>short\<newline>  Worked on the parser today  \<newline>more''
       = [''# Log'', [], ''short''] @ ''  Worked on the parser today  '' # [''more'']
   \<and> meaningful (strip ''  Worked on the parser today  '')
   \<and> get_latest_session \<lparr>env_project_dir = None, getcwd = Inr ''/work'', marker_exists = Inr True,
        project_state = Raises FileNotFoundError,
       sessions_dir = Inr (Some [''2024-01-02.md'', ''_index.md'', ''2024-03-10.md'', ''notes.txt'']),
       session_file = (\<lambda>n. if n = ''2024-03-10.md''
         then Text ''# Log\<newline>\<newline>short\<newline>  Worked on the parser today  \<newline>more''
         else Raises FileNotFoundError)\<rparr>
     = Inr (Some ''2024-03-10.md'', Some ''Worked on the parser today'')"
proof -
  let ?names = "[''2024-01-02.md'', ''_index.md'', ''2024-03-10.md'', ''notes.txt'']"
  let ?c = "''# Log\<newline>\<newline>short\<newline>  Worked on the parser today  \<newline>more''"
  let ?fs = "\<lparr>env_project_dir = None, getcwd = Inr ''/work'', marker_exists = Inr True,
        project_state = Raises FileNotFoundError,
       sessions_dir = Inr (Some ?names),
       session_file = (\<lambda>n. if n = ''2024-03-10.md'' then Text ?c else Raises FileNotFoundError)\<rparr>"
  let ?raw = "''  Worked on the parser today  ''"
  have h1: "sessions_dir ?fs = Inr (Some ?names)" by simp
  have q: "qualifying ?names = {''2024-01-02.md'', ''2024-03-10.md''}"
    unfolding qualifying_code by code_simp
  have le: "''2024-01-02.md'' \<le> ''2024-03-10.md''" by code_simp
  have h2: "''2024-03-10.md'' \<in> qualifying ?names" using q by simp
  have h3: "\<forall>n\<in>qualifying ?names. n \<le> ''2024-03-10.md''" using q le by simp
  have h4: "session_file ?fs ''2024-03-10.md'' = Text ?c" by simp
  have h5: "split_on nl ?c = [''# Log'', [], ''short''] @ ?raw # [''more'']" by code_simp
  have h6: "\<forall>l\<in>set [''# Log'', [], ''short'']. \<not> meaningful (strip l)" by code_simp
  have h7: "meaningful (strip ?raw)" by code_simp
  have h8: "(if length (strip ?raw) > 100 then take 100 (strip ?raw) @ ''...'' else strip ?raw)
     = ''Worked on the parser today''" by code_simp
  from latest_session_selected_and_summarised[of ?fs ?names "''2024-03-10.md''" ?c
      "[''# Log'', [], ''short'']" ?raw "[''more'']"] h1 h2 h3 h4 h5 h6 h7
  have "get_latest_session ?fs
     = Inr (Some ''2024-03-10.md'',
            Some (if length (strip ?raw) > 100 then take 100 (strip ?raw) @ ''...'' else strip ?raw))"
    by blast
  with h8 have r: "get_latest_session ?fs
     = Inr (Some ''2024-03-10.md'', Some ''Worked on the parser today'')"
    by simp
  from h1 q le h5 h7 r show ?thesis by blast
qed

text \<open>
  C10. A summary comes only with a file name; without a qualifying file both components
  are absent; a chosen file with empty content gives its name and no summary.
\<close>

theorem session_record_invariant:
  "(get_latest_session fs = Inr (name, summary) \<and> summary \<noteq> None \<longrightarrow> name \<noteq> None)
   \<and> (sessions_dir fs = Inr None \<or> (sessions_dir fs = Inr (Some names) \<and> qualifying names = {})
        \<longrightarrow> get_latest_session fs = Inr (None, None))
   \<and> (sessions_dir fs = Inr (Some names) \<and> latest \<in> qualifying names
        \<and> (\<forall>n\<in>qualifying names. n \<le> latest) \<and> session_file fs latest = Text []
        \<longrightarrow> get_latest_session fs = Inr (Some latest, None))"
proof -
  have a: "name \<noteq> None" if "get_latest_session fs = Inr (name, summary) \<and> summary \<noteq> None"
    using that get_latest_session_name by blast
  have b: "get_latest_session fs = Inr (None, None)"
    if "sessions_dir fs = Inr None \<or> (sessions_dir fs = Inr (Some names) \<and> qualifying names = {})"
    using that get_latest_session_no_dir get_latest_session_no_files by blast
  have c: "get_latest_session fs = Inr (Some latest, None)"
    if h: "sessions_dir fs = Inr (Some names) \<and> latest \<in> qualifying names
        \<and> (\<forall>n\<in>qualifying names. n \<le> latest) \<and> session_file fs latest = Text []"
  proof -
    from h obtain others where "session_files names = latest # others"
      using session_files_latest by blast
    with h show ?thesis
      using get_latest_session_text[of fs names latest others "[]"] by simp
  qed
  from a b c show ?thesis by blast
qed

text \<open>
  A directory whose only log is empty, and a directory with the index file and a text
  file only.
\<close>

theorem session_record_invariant_witness:
  "sessions_dir \<lparr>env_project_dir = None, getcwd = Inr ''/work'', marker_exists = Inr True,
        project_state = Raises FileNotFoundError,
       sessions_dir = Inr (Some [''_index.md'', ''2024-03-10.md'']),
       session_file = (\<lambda>n. Text [])\<rparr> = Inr (Some [''_index.md'', ''2024-03-10.md''])
   \<and> qualifying [''_index.md'', ''2024-03-10.md''] = {''2024-03-10.md''}
   \<and> get_latest_session \<lparr>env_project_dir = None, getcwd = Inr ''/work'', marker_exists = Inr True,
        project_state = Raises FileNotFoundError,
       sessions_dir = Inr (Some [''_index.md'', ''2024-03-10.md'']),
       session_file = (\<lambda>n. Text [])\<rparr> = Inr (Some ''2024-03-10.md'', None)
   \<and> qualifying [''_index.md'', ''notes.txt''] = {}
   \<and> get_latest_session \<lparr>env_project_dir = None, getcwd = Inr ''/work'', marker_exists = Inr True,
        project_state = Raises FileNotFoundError,
       sessions_dir = Inr (Some [''_index.md'', ''notes.txt'']),
       session_file = (\<lambda>n. Text ''A line that would be a summary'')\<rparr> = Inr (None, None)"
proof -
  let ?names = "[''_index.md'', ''2024-03-10.md'']"
  let ?fs = "\<lparr>env_project_dir = None, getcwd = Inr ''/work'', marker_exists = Inr True,
        project_state = Raises FileNotFoundError,
       sessions_dir = Inr (Some ?names), session_file = (\<lambda>n. Text [])\<rparr>"
  let ?names2 = "[''_index.md'', ''notes.txt'']"
  let ?fs2 = "\<lparr>env_project_dir = None, getcwd = Inr ''/work'', marker_exists = Inr True,
        project_state = Raises FileNotFoundError,
       sessions_dir = Inr (Some ?names2),
       session_file = (\<lambda>n. Text ''A line that would be a summary'')\<rparr>"
  have h1: "sessions_dir ?fs = Inr (Some ?names)" by simp
  have q: "qualifying ?names = {''2024-03-10.md''}"
    unfolding qualifying_code by code_simp
  have h2: "''2024-03-10.md'' \<in> qualifying ?names" using q by simp
  have h3: "\<forall>n\<in>qualifying ?names. n \<le> ''2024-03-10.md''" using q by simp
  have h4: "session_file ?fs ''2024-03-10.md'' = Text []" by simp
  from session_record_invariant[of ?fs _ _ ?names "''2024-03-10.md''"] h1 h2 h3 h4
  have r1: "get_latest_session ?fs = Inr (Some ''2024-03-10.md'', None)" by blast
  have g1: "sessions_dir ?fs2 = Inr (Some ?names2)" by simp
  have q2: "qualifying ?names2 = {}"
    unfolding qualifying_code by code_simp
  from session_record_invariant[of ?fs2 _ _ ?names2] g1 q2
  have r2: "get_latest_session ?fs2 = Inr (None, None)" by blast
  from h1 q r1 q2 r2 show ?thesis by blast
qed

section \<open>The claim about unreadable files\<close>




text \<open>
  The existence test of the marker file and \<^verbatim>\<open>os.getcwd()\<close> stand outside
  \<^verbatim>\<open>read_file_safely\<close> and outside any \<^verbatim>\<open>try\<close>: when \<^verbatim>\<open>docs\<close> cannot be searched the test
  raises \<^verbatim>\<open>PermissionError\<close>, and when the working directory is gone \<^verbatim>\<open>os.getcwd()\<close> raises
  \<^verbatim>\<open>FileNotFoundError\<close>, also with the variable set; the hook ends with the exception.
\<close>

lemma unguarded_calls_raise:
  "main \<lparr>env_project_dir = None, getcwd = Inr ''/work'',
       marker_exists = Inl PermissionError, project_state = Raises PermissionError,
       sessions_dir = Inr None, session_file = (\<lambda>n. Raises PermissionError)\<rparr>
     = Inl PermissionError
   \<and> main \<lparr>env_project_dir = Some ''/project'', getcwd = Inl FileNotFoundError,
       marker_exists = Inr False, project_state = Raises FileNotFoundError,
       sessions_dir = Inr None, session_file = (\<lambda>n. Raises FileNotFoundError)\<rparr>
     = Inl FileNotFoundError"
  by (simp add: main_def find_project_root_def)

end
